theory Spec2Isabelle
  imports Main
begin

section \<open>Python values and dictionaries\<close>

text \<open>
  The chat client (\<^verbatim>\<open>src/lib/gemini_tool.py\<close>) keeps a conversation in one Python
  dictionary, \<^verbatim>\<open>self.history\<close>. Its keys are the strings \<^verbatim>\<open>"title"\<close> and
  \<^verbatim>\<open>"history_index"\<close> and, for the turns, integers (turns added in this process) or
  strings (turns read back from a JSON file, whose member names are always strings).
  The values are strings, integers, \<^verbatim>\<open>None\<close> and string-keyed dictionaries.
  Floats, booleans and lists do not occur in records written by the client and are left
  out of the value type.
\<close>

datatype key = KInt int | KStr string

datatype pyval = PNone | PInt int | PStr string | PDict "(string \<times> pyval) list"

text \<open>
  A Python \<^verbatim>\<open>dict\<close> keeps insertion order: it is an association list. Storing under
  a key that is present replaces the value in place; a new key goes to the end.
  \<^verbatim>\<open>d.get(k)\<close> is \<^const>\<open>map_of\<close>, \<^verbatim>\<open>len(d)\<close> is \<^const>\<open>length\<close>,
  \<^verbatim>\<open>list(d.items())\<close> is the list itself.
\<close>

type_synonym pydict = "(key \<times> pyval) list"

fun dict_set :: "('k \<times> 'v) list \<Rightarrow> 'k \<Rightarrow> 'v \<Rightarrow> ('k \<times> 'v) list" where
  "dict_set [] k v = [(k, v)]"
| "dict_set ((k', v') # d) k v =
     (if k' = k then (k', v) # d else (k', v') # dict_set d k v)"

text \<open>
  \<^verbatim>\<open>xs[i:]\<close>: a negative start counts from the end and is clipped at the front of
  the list; a start beyond the end gives the empty list.
\<close>

definition py_slice_from :: "'a list \<Rightarrow> int \<Rightarrow> 'a list" where
  "py_slice_from xs i =
     (if i < 0 then drop (nat (max (int (length xs) + i) 0)) xs else drop (nat i) xs)"

subsection \<open>Strings\<close>

text \<open>
  \<^verbatim>\<open>str(n)\<close> of an integer is its decimal numeral, with a minus sign when negative.
  \<^verbatim>\<open>s.lower()\<close> is modelled on ASCII letters; other characters are kept.
\<close>

definition digit_char :: "nat \<Rightarrow> char" where
  "digit_char d = char_of (48 + d)"

fun str_of_nat :: "nat \<Rightarrow> string" where
  "str_of_nat n =
     (if n < 10 then [digit_char n] else str_of_nat (n div 10) @ [digit_char (n mod 10)])"

declare str_of_nat.simps [simp del]

definition str_of_int :: "int \<Rightarrow> string" where
  "str_of_int i = (if i < 0 then CHR ''-'' # str_of_nat (nat (- i)) else str_of_nat (nat i))"

definition lower_char :: "char \<Rightarrow> char" where
  "lower_char c =
     (let n = (of_char c :: nat) in if 65 \<le> n \<and> n \<le> 90 then char_of (n + 32) else c)"

definition lower :: "string \<Rightarrow> string" where
  "lower s = map lower_char s"

subsection \<open>JSON files\<close>

text \<open>
  \<^verbatim>\<open>json.dump\<close> writes the members of the dictionary in insertion order and turns
  every integer key into its decimal string. \<^verbatim>\<open>json.load\<close> builds a dictionary from
  the members of the document in order, all keys strings, a repeated member name
  overwriting the earlier value. A document is kept as its list of members; a nested
  object is kept as the dictionary it parses to.
\<close>

type_synonym json_object = "(string \<times> pyval) list"

fun key_to_str :: "key \<Rightarrow> string" where
  "key_to_str (KStr s) = s"
| "key_to_str (KInt i) = str_of_int i"

definition json_dump :: "pydict \<Rightarrow> json_object" where
  "json_dump d = map (\<lambda>(k, v). (key_to_str k, v)) d"

definition json_load :: "json_object \<Rightarrow> pydict" where
  "json_load doc = foldl (\<lambda>d (k, v). dict_set d (KStr k) v) [] doc"

text \<open>
  A history file is absent, of size zero, a JSON object, or anything else
  (on which loading raises).
\<close>

datatype filedata = EmptyFile | JsonObject json_object | Malformed

datatype exn = SystemExit | EOFError | TypeError | JSONDecodeError | OtherError string

section \<open>The client\<close>

text \<open>
  The fields of \<^verbatim>\<open>Client\<close>, with the files it reads and writes: \<open>disk\<close> maps the
  path of a history file to its content, \<open>response_csv\<close> is the content of
  \<^verbatim>\<open>chat/response.csv\<close> (\<open>None\<close> while it has not been written).
  The field \<^verbatim>\<open>context\<close> is named \<open>chat_context\<close> here.
\<close>

record client =
  model :: string
  questions :: int
  context_window :: int
  chat_title :: string
  history_file :: string
  history :: pydict
  chat_context :: pydict
  history_index :: pyval
  disk :: "string \<rightharpoonup> filedata"
  response_csv :: "string option"

text \<open>
  \<^verbatim>\<open>Client.__init__\<close> stores its three arguments as they are given. The other
  attributes are assigned by \<^verbatim>\<open>start_chat\<close>; until then they hold placeholders here.
\<close>

definition init_client :: "string \<Rightarrow> int \<Rightarrow> int \<Rightarrow> (string \<rightharpoonup> filedata) \<Rightarrow> client" where
  "init_client m q cw d =
     \<lparr> model = m, questions = q, context_window = cw, chat_title = [],
       history_file = [], history = [], chat_context = [], history_index = PInt 0,
       disk = d, response_csv = None \<rparr>"

subsection \<open>The remote call\<close>

text \<open>
  What \<^verbatim>\<open>models.generate_content\<close> returns is an object of the vendor library. The
  wrapper \<^verbatim>\<open>process_response\<close> looks at two things only: whether the object is true in a
  condition, and its attribute \<^verbatim>\<open>text\<close>, which is a string or \<^verbatim>\<open>None\<close>.
\<close>

record response =
  truthy :: bool
  resp_text :: "string option"

definition process_response :: "response \<Rightarrow> string option" where
  "process_response r = (if truthy r then resp_text r else Some ''No response received.'')"

text \<open>The remote call either raises or returns an object.\<close>

definition respond :: "(exn + response) \<Rightarrow> exn + string option" where
  "respond remote = (case remote of Inl e \<Rightarrow> Inl e | Inr r \<Rightarrow> Inr (process_response r))"

subsection \<open>Loading and saving\<close>

definition load_history :: "client \<Rightarrow> exn + client" where
  "load_history c =
     (case disk c (history_file c) of
        Some (JsonObject doc) \<Rightarrow>
          (let h = json_load doc in Inr (c\<lparr>history := h, chat_context := h\<rparr>))
      | Some Malformed \<Rightarrow> Inl JSONDecodeError
      | _ \<Rightarrow>
          (let h = dict_set (dict_set [] (KStr ''title'') (PStr (chat_title c)))
                     (KStr ''history_index'') (PInt 0)
           in Inr (c\<lparr>history := h, chat_context := h\<rparr>)))"

definition save_history :: "client \<Rightarrow> client" where
  "save_history c = c\<lparr>disk := (disk c)(history_file c \<mapsto> JsonObject (json_dump (history c)))\<rparr>"

subsection \<open>Updating\<close>

definition turn_record :: "string \<Rightarrow> string option \<Rightarrow> pyval" where
  "turn_record prompt resp =
     PDict [(''prompt'', PStr prompt),
            (''response'', (case resp of None \<Rightarrow> PNone | Some r \<Rightarrow> PStr r))]"

text \<open>
  \<^verbatim>\<open>update_history\<close> returns its result together with the state it leaves: an
  exception raised half-way leaves the assignments made before it. The history is a
  \<^verbatim>\<open>defaultdict(dict)\<close>, so reading a missing \<^verbatim>\<open>"history_index"\<close> stores an empty
  dictionary under it before the addition fails.
\<close>

definition update_history :: "client \<Rightarrow> string \<Rightarrow> string option \<Rightarrow> (exn + string) \<times> client" where
  "update_history c prompt resp =
     (let c1 = (if questions c < 1 then c\<lparr>questions := 1\<rparr> else c) in
      case map_of (history c1) (KStr ''history_index'') of
        None \<Rightarrow>
          (Inl TypeError, c1\<lparr>history := dict_set (history c1) (KStr ''history_index'') (PDict [])\<rparr>)
      | Some (PInt n) \<Rightarrow>
          (let h1 = dict_set (history c1) (KStr ''history_index'') (PInt (n + 1));
               h2 = dict_set h1 (KInt (n + 1)) (turn_record prompt resp);
               c2 = c1\<lparr>history := h2,
                        chat_context := chat_context c1 @ [(KInt (n + 1), turn_record prompt resp)]\<rparr>;
               c3 = save_history c2
           in case history_index c3 of
                PInt start \<Rightarrow>
                  (if int (length (history c3)) - 2 = questions c3 + start
                   then (Inr ''exit'', c3) else (Inr ''continue'', c3))
              | _ \<Rightarrow> (Inl TypeError, c3))
      | Some _ \<Rightarrow> (Inl TypeError, c1))"

subsection \<open>The chat loop\<close>

text \<open>
  The prompt sent to the model: the words "chat history: ", the context slice as Python
  renders it, the fixed instruction text (from the end of the first line of the f-string
  up to "prompt: ") and the text typed. \<open>repr\<close> stands for Python's rendering of the
  context slice inside the f-string; it is a parameter.
\<close>

definition context_slice :: "client \<Rightarrow> pydict" where
  "context_slice c = py_slice_from (chat_context c) (- context_window c)"

definition instruction :: string where
  "instruction =
     [CHR 0x0A] @ ''Instruction: '' @
     [CHR 0x0A] @ ''    1. Always check the 'chat history' for context only.'' @
     [CHR 0x0A] @ ''    2. Return response for current prompt only.'' @
     [CHR 0x0A] @ ''    3. your knowledge base is the basis for your response.  '' @
     [CHR 0x0A] @ ''    4. Do not repeat the chat history in your response.'' @
     [CHR 0x0A] @ ''    prompt: ''"

definition build_prompt :: "(pydict \<Rightarrow> string) \<Rightarrow> client \<Rightarrow> string \<Rightarrow> string" where
  "build_prompt repr c txt =
     ''chat history: '' @ repr (context_slice c) @ instruction @ txt"

text \<open>
  One pass of the \<^verbatim>\<open>while True\<close> body, after the prompt text has been read.
  The result is \<open>Some e\<close> when the pass raises \<open>e\<close> (\<^verbatim>\<open>exit()\<close> raises
  \<^verbatim>\<open>SystemExit\<close>) and \<open>None\<close> when the loop goes on to read the next prompt.
  Opening \<^verbatim>\<open>chat/response.csv\<close> for writing empties it; writing \<^verbatim>\<open>None\<close> then
  raises \<^verbatim>\<open>TypeError\<close>.
\<close>

definition turn :: "(pydict \<Rightarrow> string) \<Rightarrow> client \<Rightarrow> string \<Rightarrow> (exn + response) \<Rightarrow> exn option \<times> client" where
  "turn repr c txt remote =
     (let prompt = build_prompt repr c txt in
      case respond remote of
        Inl e \<Rightarrow> (Some e, c)
      | Inr resp \<Rightarrow>
          (case update_history c prompt resp of
             (Inl e, c1) \<Rightarrow> (Some e, c1)
           | (Inr status, c1) \<Rightarrow>
               (case resp of
                  None \<Rightarrow> (Some TypeError, c1\<lparr>response_csv := Some []\<rparr>)
                | Some r \<Rightarrow>
                    (let c2 = c1\<lparr>response_csv := Some r\<rparr> in
                     if status = ''exit'' \<or> lower prompt = ''exit''
                     then (Some SystemExit, c2) else (None, c2)))))"

text \<open>
  The loop reads one prompt per pass. A run is given by the prompts typed, each with
  what the remote call of that pass does; when the input is used up, \<^verbatim>\<open>input\<close> raises
  \<^verbatim>\<open>EOFError\<close>. The loop has no other way out than an exception, so the
  \<^verbatim>\<open>return self.model\<close> after it is never reached.
\<close>

fun chat_loop :: "(pydict \<Rightarrow> string) \<Rightarrow> client \<Rightarrow> (string \<times> (exn + response)) list \<Rightarrow> exn \<times> client" where
  "chat_loop repr c [] = (EOFError, c)"
| "chat_loop repr c ((txt, remote) # rest) =
     (case turn repr c txt remote of
        (Some e, c1) \<Rightarrow> (e, c1)
      | (None, c1) \<Rightarrow> chat_loop repr c1 rest)"

text \<open>The lines of \<^verbatim>\<open>start_chat\<close> before the loop, with the title read from the console.\<close>

definition history_path :: "string \<Rightarrow> string" where
  "history_path title = ''chat/history/'' @ title @ ''.json''"

definition start_session :: "client \<Rightarrow> string \<Rightarrow> exn + client" where
  "start_session c title =
     (case load_history (c\<lparr>chat_title := title, history_file := history_path title\<rparr>) of
        Inl e \<Rightarrow> Inl e
      | Inr c1 \<Rightarrow>
          Inr (c1\<lparr>history_index :=
                   (case map_of (history c1) (KStr ''history_index'') of
                      None \<Rightarrow> PInt 0 | Some v \<Rightarrow> v)\<rparr>))"

definition start_chat :: "(pydict \<Rightarrow> string) \<Rightarrow> client \<Rightarrow> string \<Rightarrow> (string \<times> (exn + response)) list \<Rightarrow> exn \<times> client" where
  "start_chat repr c title script =
     (case start_session c title of
        Inl e \<Rightarrow> (e, c)
      | Inr c1 \<Rightarrow> chat_loop repr c1 script)"

subsection \<open>The entry point\<close>

text \<open>
  \<^verbatim>\<open>main\<close> in \<^verbatim>\<open>src/gemini.py\<close>: the argument is what the body of the
  \<^verbatim>\<open>try\<close> does (building the client when none is injected, then
  \<^verbatim>\<open>gemini.start_chat()\<close>): it returns or it raises. The result is the list of
  calls made on the log, in order.
\<close>

datatype log_call = Info string | Critical

definition main :: "(exn + 'a) \<Rightarrow> log_call list" where
  "main body =
     Info ''Starting Gemini Client...'' #
     (case body of
        Inl SystemExit \<Rightarrow> [Info ''Chat ended successfully.'']
      | Inl _ \<Rightarrow> [Critical]
      | Inr _ \<Rightarrow> [])"

text \<open>A whole run of the program on a disk, a title and a script of prompts.\<close>

definition run :: "(pydict \<Rightarrow> string) \<Rightarrow> client \<Rightarrow> string \<Rightarrow> (string \<times> (exn + response)) list \<Rightarrow> log_call list" where
  "run repr c title script = main (Inl (fst (start_chat repr c title script)) :: exn + string)"

section \<open>Records created by the client\<close>

text \<open>
  The entries of a history other than the two bookkeeping entries.
\<close>

definition turn_entries :: "pydict \<Rightarrow> pydict" where
  "turn_entries h = filter (\<lambda>(k, v). k \<noteq> KStr ''title'' \<and> k \<noteq> KStr ''history_index'') h"

text \<open>
  The shape of a history made by the client: the title, the counter, then one entry per
  turn, the j-th under a key that reads as the number j (the integer j in the process
  that added the turn, its decimal string after a reload).
\<close>

definition well_formed :: "pydict \<Rightarrow> bool" where
  "well_formed h =
     (case h of
        (k1, v1) # (k2, PInt n) # ts \<Rightarrow>
          k1 = KStr ''title'' \<and> k2 = KStr ''history_index'' \<and> int (length ts) = n \<and>
          map (\<lambda>(k, v). key_to_str k) ts = map str_of_int [1..n]
      | _ \<Rightarrow> False)"

text \<open>
  The client states whose history the client itself has made: a session opened on a
  title that has no record, a state extended by \<^verbatim>\<open>update_history\<close>, or a session
  opened (by any client, in a later run) on a title whose file is what such a state
  saves.
\<close>

inductive system_state :: "client \<Rightarrow> bool" where
  fresh: "disk c (history_path title) = None \<or> disk c (history_path title) = Some EmptyFile \<Longrightarrow>
          start_session c title = Inr c' \<Longrightarrow> system_state c'"
| updated: "system_state c \<Longrightarrow> update_history c prompt resp = (r, c') \<Longrightarrow> system_state c'"
| reopened: "system_state c \<Longrightarrow>
          disk d (history_path title) = disk (save_history c) (history_file c) \<Longrightarrow>
          start_session d title = Inr c' \<Longrightarrow> system_state c'"

section \<open>Auxiliary notions\<close>

text \<open>
  The state after a sequence of calls of \<^verbatim>\<open>update_history\<close>, whatever each call
  returned: the k-th call of a session is the call made in the state after k - 1 calls.
\<close>

fun after_updates :: "client \<Rightarrow> (string \<times> string option) list \<Rightarrow> client" where
  "after_updates c [] = c"
| "after_updates c ((prompt, resp) # calls) = after_updates (snd (update_history c prompt resp)) calls"

text \<open>A history as it comes back from a file: every key replaced by its member name.\<close>

definition stringify :: "pydict \<Rightarrow> pydict" where
  "stringify h = map (\<lambda>(k, v). (KStr (key_to_str k), v)) h"

text \<open>
  In a session on a record made by the client, the starting index is a number between 0
  and the number of turns, and the context list is the history with the counter entry as
  it was when the record was loaded, that is, holding the starting index.
\<close>

definition consistent :: "client \<Rightarrow> bool" where
  "consistent c =
     (well_formed (history c) \<and>
      (case history_index c of
         PInt s \<Rightarrow> 0 \<le> s \<and> s \<le> int (length (history c)) - 2
       | _ \<Rightarrow> False) \<and>
      chat_context c =
        take 1 (history c) @ [(KStr ''history_index'', history_index c)] @ drop 2 (history c))"

text \<open>Reading a decimal numeral back, to show that \<^const>\<open>str_of_nat\<close> is injective.\<close>

definition is_digit :: "char \<Rightarrow> bool" where
  "is_digit c = (48 \<le> (of_char c :: nat) \<and> (of_char c :: nat) \<le> 57)"

definition digit_val :: "char \<Rightarrow> nat" where
  "digit_val c = of_char c - 48"

definition nat_of_str :: "string \<Rightarrow> nat" where
  "nat_of_str s = foldl (\<lambda>a c. 10 * a + digit_val c) 0 s"

section \<open>Dictionaries, numerals and JSON\<close>

lemma dict_set_fresh: "k \<notin> fst ` set d \<Longrightarrow> dict_set d k v = d @ [(k, v)]"
  by (induction d) auto

lemma length_dict_set_ge: "length d \<le> length (dict_set d k v)"
  by (induction d) auto

lemma map_of_dict_set_same: "map_of (dict_set d k v) k = Some v"
  by (induction d) auto

lemma map_of_dict_set_other: "k' \<noteq> k \<Longrightarrow> map_of (dict_set d k v) k' = map_of d k'"
  by (induction d) auto

lemma foldl_dict_set_distinct:
  "distinct (map fst acc @ map (\<lambda>(k, v). KStr k) doc) \<Longrightarrow>
   foldl (\<lambda>d (k, v). dict_set d (KStr k) v) acc doc = acc @ map (\<lambda>(k, v). (KStr k, v)) doc"
proof (induction doc arbitrary: acc)
  case Nil
  then show ?case by simp
next
  case (Cons m doc)
  obtain k v where m: "m = (k, v)" by (cases m)
  from Cons.prems have fresh: "KStr k \<notin> fst ` set acc"
    by (auto simp: m)
  from Cons.prems have "distinct (map fst (acc @ [(KStr k, v)]) @ map (\<lambda>(k, v). KStr k) doc)"
    by (auto simp: m)
  from Cons.IH [OF this] show ?case
    by (simp add: m dict_set_fresh [OF fresh])
qed

lemma json_load_distinct:
  "distinct (map fst doc) \<Longrightarrow> json_load doc = map (\<lambda>(k, v). (KStr k, v)) doc"
proof -
  assume d: "distinct (map fst doc)"
  have "map (\<lambda>(k, v). KStr k) doc = map KStr (map fst doc)"
    by (induction doc) auto
  with d have "distinct (map fst ([] :: pydict) @ map (\<lambda>(k, v). KStr k) doc)"
    by (simp add: distinct_map inj_on_def)
  from foldl_dict_set_distinct [OF this] show ?thesis
    by (simp add: json_load_def)
qed

lemma digit_val_digit_char: "d < 10 \<Longrightarrow> digit_val (digit_char d) = d"
  by (simp add: digit_val_def digit_char_def)

lemma is_digit_digit_char: "d < 10 \<Longrightarrow> is_digit (digit_char d)"
  by (simp add: is_digit_def digit_char_def)

lemma str_of_nat_digits: "c \<in> set (str_of_nat n) \<Longrightarrow> is_digit c"
proof (induction n rule: str_of_nat.induct)
  case (1 n)
  show ?case
  proof (cases "n < 10")
    case True
    with "1.prems" show ?thesis
      by (simp add: str_of_nat.simps [of n] is_digit_digit_char)
  next
    case False
    with "1.prems" "1.IH" show ?thesis
      by (auto simp: str_of_nat.simps [of n] is_digit_digit_char)
  qed
qed

lemma nat_of_str_of_nat: "nat_of_str (str_of_nat n) = n"
proof (induction n rule: str_of_nat.induct)
  case (1 n)
  show ?case
  proof (cases "n < 10")
    case True
    then show ?thesis
      by (simp add: str_of_nat.simps [of n] nat_of_str_def digit_val_digit_char)
  next
    case False
    with "1.IH" have "nat_of_str (str_of_nat (n div 10)) = n div 10" by simp
    with False show ?thesis
      by (simp add: str_of_nat.simps [of n] nat_of_str_def digit_val_digit_char)
  qed
qed

lemma str_of_nat_inj: "str_of_nat a = str_of_nat b \<Longrightarrow> a = b"
  by (metis nat_of_str_of_nat)

lemma not_digit_minus: "\<not> is_digit CHR ''-''"
  by (simp add: is_digit_def)

lemma str_of_nat_no_minus: "CHR ''-'' # s \<noteq> str_of_nat n"
proof
  assume "CHR ''-'' # s = str_of_nat n"
  then have "CHR ''-'' \<in> set (str_of_nat n)" by (metis list.set_intros(1))
  then show False using str_of_nat_digits not_digit_minus by blast
qed

lemma str_of_int_inj: "str_of_int i = str_of_int j \<Longrightarrow> i = j"
  using str_of_nat_no_minus [of _ "nat i"] str_of_nat_no_minus [of _ "nat j"]
  by (auto simp: str_of_int_def dest!: str_of_nat_inj split: if_splits)

lemma str_of_int_chars: "c \<in> set (str_of_int i) \<Longrightarrow> is_digit c \<or> c = CHR ''-''"
  by (auto simp: str_of_int_def dest: str_of_nat_digits split: if_splits)

lemma str_of_int_not_title: "str_of_int i \<noteq> ''title''"
proof
  assume "str_of_int i = ''title''"
  then have "CHR ''t'' \<in> set (str_of_int i)" by simp
  from str_of_int_chars [OF this] show False by (simp add: is_digit_def)
qed

lemma str_of_int_not_history_index: "str_of_int i \<noteq> ''history_index''"
proof
  assume "str_of_int i = ''history_index''"
  then have "CHR ''h'' \<in> set (str_of_int i)" by simp
  from str_of_int_chars [OF this] show False by (simp add: is_digit_def)
qed

section \<open>What one update changes\<close>

lemma update_history_questions:
  "questions (snd (update_history c prompt resp)) = max 1 (questions c)"
  by (simp add: update_history_def save_history_def Let_def
        split: option.splits pyval.splits)

lemma update_history_frame:
  "model (snd (update_history c prompt resp)) = model c"
  "context_window (snd (update_history c prompt resp)) = context_window c"
  "history_index (snd (update_history c prompt resp)) = history_index c"
  by (simp_all add: update_history_def save_history_def Let_def
        split: option.splits pyval.splits)

lemma update_history_status:
  assumes "map_of (history c) (KStr ''history_index'') = Some (PInt n)"
    and "history_index c = PInt s"
  shows "fst (update_history c prompt resp) =
         Inr (if int (length (history (snd (update_history c prompt resp)))) - 2 = max 1 (questions c) + s
              then ''exit'' else ''continue'')"
  using assms
  by (simp add: update_history_def save_history_def Let_def)

lemma update_history_index:
  assumes "map_of (history c) (KStr ''history_index'') = Some (PInt n)"
  shows "map_of (history (snd (update_history c prompt resp))) (KStr ''history_index'') = Some (PInt (n + 1))"
  using assms
  by (simp add: update_history_def save_history_def Let_def map_of_dict_set_other map_of_dict_set_same
        split: pyval.splits)

lemma update_history_length:
  "length (history c) \<le> length (history (snd (update_history c prompt resp)))"
proof -
  have "length d \<le> length (dict_set (dict_set d k v) k' v')" for d :: pydict and k v k' v'
    using length_dict_set_ge [of d k v] length_dict_set_ge [of "dict_set d k v" k' v'] by simp
  then show ?thesis
    by (simp add: update_history_def save_history_def Let_def length_dict_set_ge
        split: option.splits pyval.splits)
qed

lemma update_history_recorded:
  assumes "map_of (history c) (KStr ''history_index'') = Some (PInt n)"
  shows "map_of (history (snd (update_history c prompt resp))) (KInt (n + 1)) = Some (turn_record prompt resp)"
  using assms
  by (simp add: update_history_def save_history_def Let_def map_of_dict_set_same
        split: pyval.splits)

section \<open>Histories made by the client\<close>

lemma well_formedE:
  assumes "well_formed h"
  obtains v1 ts where "h = (KStr ''title'', v1) # (KStr ''history_index'', PInt (int (length ts))) # ts"
    and "map (\<lambda>(k, v). key_to_str k) ts = map str_of_int [1..int (length ts)]"
  using assms unfolding well_formed_def
  by (auto split: list.splits pyval.splits prod.splits)

lemma well_formedI:
  "map (\<lambda>(k, v). key_to_str k) ts = map str_of_int [1..int (length ts)] \<Longrightarrow>
   well_formed ((KStr ''title'', v1) # (KStr ''history_index'', PInt (int (length ts))) # ts)"
  by (simp add: well_formed_def)

lemma numbered_key_fresh:
  assumes "map (\<lambda>(k, v). key_to_str k) ts = map str_of_int [1..int (length ts)]"
  shows "KInt (int (length ts) + 1) \<notin> fst ` set ts"
proof
  assume "KInt (int (length ts) + 1) \<in> fst ` set ts"
  then obtain v where "(KInt (int (length ts) + 1), v) \<in> set ts" by auto
  then have "str_of_int (int (length ts) + 1) \<in> set (map (\<lambda>(k, v). key_to_str k) ts)"
    by force
  with assms have "str_of_int (int (length ts) + 1) \<in> str_of_int ` {1..int (length ts)}"
    by simp
  then obtain i where "i \<le> int (length ts)" "str_of_int (int (length ts) + 1) = str_of_int i"
    by auto
  then show False using str_of_int_inj by fastforce
qed

lemma numbered_keys_snoc:
  assumes "map (\<lambda>(k, v). key_to_str k) ts = map str_of_int [1..int (length ts)]"
  shows "map (\<lambda>(k, v). key_to_str k) (ts @ [(KInt (int (length ts) + 1), t)]) =
         map str_of_int [1..int (length (ts @ [(KInt (int (length ts) + 1), t)]))]"
proof -
  have "[1..int (length ts) + 1] = [1..int (length ts)] @ [int (length ts) + 1]"
    using upto_rec2 [of 1 "int (length ts) + 1"] by simp
  with assms show ?thesis by (simp add: add.commute)
qed

lemma numbered_keys_not_bookkeeping:
  assumes "map (\<lambda>(k, v). key_to_str k) ts = map str_of_int [1..n]"
  shows "filter (\<lambda>(k, v). k \<noteq> KStr ''title'' \<and> k \<noteq> KStr ''history_index'') ts = ts"
proof -
  have "\<And>k v. (k, v) \<in> set ts \<Longrightarrow> k \<noteq> KStr ''title'' \<and> k \<noteq> KStr ''history_index''"
  proof -
    fix k v assume "(k, v) \<in> set ts"
    then have "key_to_str k \<in> set (map (\<lambda>(k, v). key_to_str k) ts)" by force
    with assms obtain i where "key_to_str k = str_of_int i" by auto
    then show "k \<noteq> KStr ''title'' \<and> k \<noteq> KStr ''history_index''"
      using str_of_int_not_title [of i] str_of_int_not_history_index [of i] by auto
  qed
  then show ?thesis by (auto intro!: filter_True)
qed

lemma turn_entries_well_formed:
  "well_formed h \<Longrightarrow> turn_entries h = drop 2 h"
  by (erule well_formedE) (simp add: turn_entries_def numbered_keys_not_bookkeeping)

lemma update_history_well_formed:
  assumes h: "history c = (KStr ''title'', v1) # (KStr ''history_index'', PInt (int (length ts))) # ts"
    and keys: "map (\<lambda>(k, v). key_to_str k) ts = map str_of_int [1..int (length ts)]"
  shows "history (snd (update_history c prompt resp)) =
           (KStr ''title'', v1) # (KStr ''history_index'', PInt (int (length ts) + 1)) #
           ts @ [(KInt (int (length ts) + 1), turn_record prompt resp)]"
    and "chat_context (snd (update_history c prompt resp)) =
           chat_context c @ [(KInt (int (length ts) + 1), turn_record prompt resp)]"
proof -
  have fresh: "dict_set ts (KInt (int (length ts) + 1)) t = ts @ [(KInt (int (length ts) + 1), t)]" for t
    by (rule dict_set_fresh) (rule numbered_key_fresh [OF keys])
  show "history (snd (update_history c prompt resp)) =
           (KStr ''title'', v1) # (KStr ''history_index'', PInt (int (length ts) + 1)) #
           ts @ [(KInt (int (length ts) + 1), turn_record prompt resp)]"
    by (simp add: update_history_def h save_history_def Let_def fresh split: pyval.splits)
  show "chat_context (snd (update_history c prompt resp)) =
           chat_context c @ [(KInt (int (length ts) + 1), turn_record prompt resp)]"
    by (simp add: update_history_def h save_history_def Let_def fresh split: pyval.splits)
qed

lemma json_dump_keys: "map fst (json_dump h) = map (\<lambda>(k, v). key_to_str k) h"
  by (induction h) (auto simp: json_dump_def)

lemma json_roundtrip:
  assumes "distinct (map (\<lambda>(k, v). key_to_str k) h)"
  shows "json_load (json_dump h) = stringify h"
proof -
  from assms have "distinct (map fst (json_dump h))" by (simp add: json_dump_keys)
  then have "json_load (json_dump h) = map (\<lambda>(k, v). (KStr k, v)) (json_dump h)"
    by (rule json_load_distinct)
  also have "\<dots> = stringify h"
    by (induction h) (auto simp: json_dump_def stringify_def)
  finally show ?thesis .
qed

lemma start_session_saved:
  assumes "disk d (history_path title) = disk (save_history c) (history_file c)"
    and "distinct (map (\<lambda>(k, v). key_to_str k) (history c))"
  shows "\<exists>c'. start_session d title = Inr c' \<and>
           history c' = stringify (history c) \<and> chat_context c' = stringify (history c) \<and>
           history_index c' =
             (case map_of (stringify (history c)) (KStr ''history_index'') of
                None \<Rightarrow> PInt 0 | Some v \<Rightarrow> v)"
  using assms(1)
  by (simp add: start_session_def load_history_def save_history_def
      json_roundtrip [OF assms(2)] Let_def)

lemma numbered_keys_distinct:
  "distinct (map str_of_int [1..n])"
  by (simp add: distinct_map inj_on_def str_of_int_inj)

lemma well_formed_distinct:
  assumes "well_formed h"
  shows "distinct (map (\<lambda>(k, v). key_to_str k) h)"
proof -
  from assms obtain v1 ts where
    h: "h = (KStr ''title'', v1) # (KStr ''history_index'', PInt (int (length ts))) # ts"
    and keys: "map (\<lambda>(k, v). key_to_str k) ts = map str_of_int [1..int (length ts)]"
    by (rule well_formedE)
  have "''title'' \<notin> set (map str_of_int [1..int (length ts)])"
    using str_of_int_not_title by fastforce
  moreover have "''history_index'' \<notin> set (map str_of_int [1..int (length ts)])"
    using str_of_int_not_history_index by fastforce
  ultimately show ?thesis
    using numbered_keys_distinct [of "int (length ts)"] by (simp add: h keys)
qed

lemma stringify_keys: "map (\<lambda>(k, v). key_to_str k) (stringify h) = map (\<lambda>(k, v). key_to_str k) h"
  by (induction h) (auto simp: stringify_def)

lemma stringify_values: "map snd (stringify h) = map snd h"
  by (induction h) (auto simp: stringify_def)

lemma length_stringify: "length (stringify h) = length h"
  by (simp add: stringify_def)

lemma well_formed_stringify:
  assumes "well_formed h"
  shows "well_formed (stringify h)"
proof -
  from assms obtain v1 ts where
    h: "h = (KStr ''title'', v1) # (KStr ''history_index'', PInt (int (length ts))) # ts"
    and keys: "map (\<lambda>(k, v). key_to_str k) ts = map str_of_int [1..int (length ts)]"
    by (rule well_formedE)
  have "stringify h = (KStr ''title'', v1) # (KStr ''history_index'', PInt (int (length (stringify ts)))) # stringify ts"
    by (simp add: h stringify_def)
  moreover have "map (\<lambda>(k, v). key_to_str k) (stringify ts) = map str_of_int [1..int (length (stringify ts))]"
    by (simp add: stringify_keys keys length_stringify)
  ultimately show ?thesis by (simp add: well_formedI)
qed

lemma consistentE:
  assumes "consistent c"
  obtains v1 ts s where
    "history c = (KStr ''title'', v1) # (KStr ''history_index'', PInt (int (length ts))) # ts"
    and "map (\<lambda>(k, v). key_to_str k) ts = map str_of_int [1..int (length ts)]"
    and "history_index c = PInt s" and "0 \<le> s" and "s \<le> int (length ts)"
    and "chat_context c = (KStr ''title'', v1) # (KStr ''history_index'', PInt s) # ts"
proof -
  from assms have wf: "well_formed (history c)" by (simp add: consistent_def)
  then obtain v1 ts where
    h: "history c = (KStr ''title'', v1) # (KStr ''history_index'', PInt (int (length ts))) # ts"
    and keys: "map (\<lambda>(k, v). key_to_str k) ts = map str_of_int [1..int (length ts)]"
    by (rule well_formedE)
  from assms obtain s where s: "history_index c = PInt s" "0 \<le> s" "s \<le> int (length ts)"
    by (cases "history_index c") (simp_all add: consistent_def h)
  from assms have "chat_context c = (KStr ''title'', v1) # (KStr ''history_index'', PInt s) # ts"
    by (simp add: consistent_def h s)
  with h keys s that show ?thesis by blast
qed

lemma consistentI:
  assumes "history c = (KStr ''title'', v1) # (KStr ''history_index'', PInt (int (length ts))) # ts"
    and "map (\<lambda>(k, v). key_to_str k) ts = map str_of_int [1..int (length ts)]"
    and "history_index c = PInt s" and "0 \<le> s" and "s \<le> int (length ts)"
    and "chat_context c = (KStr ''title'', v1) # (KStr ''history_index'', PInt s) # ts"
  shows "consistent c"
  using assms well_formedI [OF assms(2), of v1]
  by (simp add: consistent_def)

lemma consistent_fresh:
  assumes "disk c (history_path title) = None \<or> disk c (history_path title) = Some EmptyFile"
    and "start_session c title = Inr c'"
  shows "consistent c'"
  using assms
  by (auto simp: start_session_def load_history_def consistent_def well_formed_def Let_def)

lemma consistent_updated:
  assumes "consistent c"
  shows "consistent (snd (update_history c prompt resp))"
proof -
  from assms obtain v1 ts s where
    h: "history c = (KStr ''title'', v1) # (KStr ''history_index'', PInt (int (length ts))) # ts"
    and keys: "map (\<lambda>(k, v). key_to_str k) ts = map str_of_int [1..int (length ts)]"
    and s: "history_index c = PInt s" "0 \<le> s" "s \<le> int (length ts)"
    and ctx: "chat_context c = (KStr ''title'', v1) # (KStr ''history_index'', PInt s) # ts"
    by (rule consistentE)
  let ?t = "(KInt (int (length ts) + 1), turn_record prompt resp)"
  let ?c = "snd (update_history c prompt resp)"
  have h': "history ?c = (KStr ''title'', v1) # (KStr ''history_index'', PInt (int (length ts) + 1)) # ts @ [?t]"
    and ctx': "chat_context ?c = chat_context c @ [?t]"
    by (rule update_history_well_formed [OF h keys])+
  have 1: "history ?c = (KStr ''title'', v1) #
      (KStr ''history_index'', PInt (int (length (ts @ [?t])))) # (ts @ [?t])"
    by (simp add: h' add.commute)
  have 2: "history_index ?c = PInt s"
    by (simp add: update_history_frame s)
  have 3: "s \<le> int (length (ts @ [?t]))"
    using s by simp
  have 4: "chat_context ?c = (KStr ''title'', v1) # (KStr ''history_index'', PInt s) # (ts @ [?t])"
    by (simp add: ctx' ctx)
  from consistentI [OF 1 numbered_keys_snoc [OF keys] 2 s(2) 3 4] show ?thesis .
qed

lemma consistent_reopened:
  assumes "consistent c"
    and "disk d (history_path title) = disk (save_history c) (history_file c)"
    and "start_session d title = Inr c'"
  shows "consistent c'"
proof -
  from assms(1) have wf: "well_formed (history c)" by (simp add: consistent_def)
  then obtain v1 ts where
    h: "history c = (KStr ''title'', v1) # (KStr ''history_index'', PInt (int (length ts))) # ts"
    and keys: "map (\<lambda>(k, v). key_to_str k) ts = map str_of_int [1..int (length ts)]"
    by (rule well_formedE)
  have sh: "stringify (history c) =
      (KStr ''title'', v1) # (KStr ''history_index'', PInt (int (length (stringify ts)))) # stringify ts"
    by (simp add: h stringify_def)
  from assms(3) start_session_saved [OF assms(2) well_formed_distinct [OF wf]]
  have c': "history c' = stringify (history c)" "chat_context c' = stringify (history c)"
    and i: "history_index c' =
             (case map_of (stringify (history c)) (KStr ''history_index'') of
                None \<Rightarrow> PInt 0 | Some v \<Rightarrow> v)"
    by auto
  have 1: "history c' =
      (KStr ''title'', v1) # (KStr ''history_index'', PInt (int (length (stringify ts)))) # stringify ts"
    by (simp add: c' sh)
  have 2: "map (\<lambda>(k, v). key_to_str k) (stringify ts) = map str_of_int [1..int (length (stringify ts))]"
    by (simp add: stringify_keys keys length_stringify)
  have 3: "history_index c' = PInt (int (length (stringify ts)))"
    unfolding i sh by simp
  have 4: "chat_context c' =
      (KStr ''title'', v1) # (KStr ''history_index'', PInt (int (length (stringify ts)))) # stringify ts"
    by (simp add: c' sh)
  from consistentI [OF 1 2 3 _ _ 4] show ?thesis by simp
qed

lemma system_state_consistent: "system_state c \<Longrightarrow> consistent c"
proof (induction rule: system_state.induct)
  case (fresh c title c')
  then show ?case by (rule consistent_fresh)
next
  case (updated c prompt resp r c')
  from consistent_updated [OF updated.IH, of prompt resp] updated.hyps(2)
  show ?case by simp
next
  case (reopened c d title c')
  from consistent_reopened [OF reopened.IH reopened.hyps(2,3)] show ?case .
qed

section \<open>Loading a title that has no record\<close>

text \<open>
  Claim C5. For every title with no existing record, or with an empty existing record,
  loading produces a fresh history: the counter \<^verbatim>\<open>history_index\<close> is 0, there is no
  turn entry, and the title is the requested one. The session's starting index is 0 too.
\<close>

theorem fresh_history:
  assumes "disk c (history_path title) = None \<or> disk c (history_path title) = Some EmptyFile"
  shows "\<exists>c'. start_session c title = Inr c' \<and>
           history c' = [(KStr ''title'', PStr title), (KStr ''history_index'', PInt 0)] \<and>
           map_of (history c') (KStr ''title'') = Some (PStr title) \<and>
           map_of (history c') (KStr ''history_index'') = Some (PInt 0) \<and>
           turn_entries (history c') = [] \<and>
           history_index c' = PInt 0"
  using assms by (auto simp: start_session_def load_history_def turn_entries_def Let_def)

theorem fresh_history_witness:
  "(Map.empty (history_path ''demo'') = (None :: filedata option) \<or>
    Map.empty (history_path ''demo'') = Some EmptyFile) \<and>
   (\<exists>c'. start_session (init_client ''gemini-2.0-flash'' 100 15 Map.empty) ''demo'' = Inr c' \<and>
           history c' = [(KStr ''title'', PStr ''demo''), (KStr ''history_index'', PInt 0)] \<and>
           map_of (history c') (KStr ''title'') = Some (PStr ''demo'') \<and>
           map_of (history c') (KStr ''history_index'') = Some (PInt 0) \<and>
           turn_entries (history c') = [] \<and>
           history_index c' = PInt 0)"
  using fresh_history [of "init_client ''gemini-2.0-flash'' 100 15 Map.empty" "''demo''"]
  by (simp add: init_client_def)

section \<open>The entry point's two handlers\<close>

text \<open>
  Claim C8. For every run of \<^verbatim>\<open>main\<close>: if the session raises \<^verbatim>\<open>SystemExit\<close>, the
  message "Chat ended successfully." is logged at level info and \<^verbatim>\<open>log.critical\<close> is not
  called; if it raises anything else, \<^verbatim>\<open>log.critical\<close> is called and that message is
  not logged; no run does both.
\<close>

theorem main_paths:
  "(body = Inl SystemExit \<longrightarrow>
      Info ''Chat ended successfully.'' \<in> set (main body) \<and> Critical \<notin> set (main body)) \<and>
   (\<forall>e. body = Inl e \<and> e \<noteq> SystemExit \<longrightarrow>
      Critical \<in> set (main body) \<and> Info ''Chat ended successfully.'' \<notin> set (main body)) \<and>
   \<not> (Info ''Chat ended successfully.'' \<in> set (main body) \<and> Critical \<in> set (main body))"
  by (auto simp: main_def split: sum.splits exn.splits)

theorem main_paths_witness:
  "(Info ''Chat ended successfully.'' \<in> set (main (Inl SystemExit :: exn + string)) \<and>
    Critical \<notin> set (main (Inl SystemExit :: exn + string))) \<and>
   (Critical \<in> set (main (Inl (OtherError ''remote call failed'') :: exn + string)) \<and>
    Info ''Chat ended successfully.'' \<notin> set (main (Inl (OtherError ''remote call failed'') :: exn + string)))"
  using main_paths [of "Inl SystemExit :: exn + string"]
        main_paths [of "Inl (OtherError ''remote call failed'') :: exn + string"]
  by simp

section \<open>The response recorded for a turn\<close>

lemma turn_history:
  "history (snd (turn repr c txt (Inr r))) =
   history (snd (update_history c (build_prompt repr c txt) (process_response r)))"
  by (simp add: turn_def respond_def Let_def split: prod.splits sum.splits option.splits)

text \<open>
  Claim C6, as amended. When the remote call returns a null object (one that is false in
  a condition), the turn stored under the next index holds the prompt sent and, as its
  response, the fixed string "No response received.". When it returns an object that is
  true in a condition and whose text is a string, the stored response is that text, also
  when the text is empty.
\<close>

theorem recorded_response:
  assumes "map_of (history c) (KStr ''history_index'') = Some (PInt n)"
  shows "(\<not> truthy r \<longrightarrow>
            map_of (history (snd (turn repr c txt (Inr r)))) (KInt (n + 1)) =
            Some (PDict [(''prompt'', PStr (build_prompt repr c txt)),
                         (''response'', PStr ''No response received.'')])) \<and>
         (\<forall>t. truthy r \<and> resp_text r = Some t \<longrightarrow>
            map_of (history (snd (turn repr c txt (Inr r)))) (KInt (n + 1)) =
            Some (PDict [(''prompt'', PStr (build_prompt repr c txt)), (''response'', PStr t)]))"
  by (simp add: turn_history process_response_def update_history_recorded [OF assms]
      turn_record_def)

theorem recorded_response_witness:
  "map_of (history (projr (start_session (init_client ''gemini-2.0-flash'' 100 15 Map.empty) ''demo'')))
          (KStr ''history_index'') = Some (PInt 0) \<and>
   map_of (history (snd (turn (concat \<circ> map (key_to_str \<circ> fst))
             (projr (start_session (init_client ''gemini-2.0-flash'' 100 15 Map.empty) ''demo''))
             ''hi'' (Inr \<lparr>truthy = False, resp_text = None\<rparr>)))) (KInt 1) =
   Some (PDict [(''prompt'', PStr (build_prompt (concat \<circ> map (key_to_str \<circ> fst))
                   (projr (start_session (init_client ''gemini-2.0-flash'' 100 15 Map.empty) ''demo''))
                   ''hi'')),
                (''response'', PStr ''No response received.'')]) \<and>
   map_of (history (snd (turn (concat \<circ> map (key_to_str \<circ> fst))
             (projr (start_session (init_client ''gemini-2.0-flash'' 100 15 Map.empty) ''demo''))
             ''hi'' (Inr \<lparr>truthy = True, resp_text = Some ''hello''\<rparr>)))) (KInt 1) =
   Some (PDict [(''prompt'', PStr (build_prompt (concat \<circ> map (key_to_str \<circ> fst))
                   (projr (start_session (init_client ''gemini-2.0-flash'' 100 15 Map.empty) ''demo''))
                   ''hi'')),
                (''response'', PStr ''hello'')])"
proof -
  let ?c = "projr (start_session (init_client ''gemini-2.0-flash'' 100 15 Map.empty) ''demo'')"
  have h: "map_of (history ?c) (KStr ''history_index'') = Some (PInt 0)"
    by (simp add: start_session_def load_history_def init_client_def Let_def)
  from recorded_response [OF h, of "\<lparr>truthy = False, resp_text = None\<rparr>" "(concat \<circ> map (key_to_str \<circ> fst))" "''hi''"]
    recorded_response [OF h, of "\<lparr>truthy = True, resp_text = Some ''hello''\<rparr>" "(concat \<circ> map (key_to_str \<circ> fst))" "''hi''"]
    h
  show ?thesis by simp
qed

text \<open>
  Claim C6 as stated gives the sentinel for every empty or null response. An empty
  response of the remote model is an object that is true in a condition and whose text
  is empty: the turn then stores the empty text, not the sentinel.
\<close>

theorem recorded_response_counterexample:
  "map_of (history (snd (turn (concat \<circ> map (key_to_str \<circ> fst))
             (projr (start_session (init_client ''gemini-2.0-flash'' 100 15 Map.empty) ''demo''))
             ''hi'' (Inr \<lparr>truthy = True, resp_text = Some []\<rparr>)))) (KInt 1) =
   Some (PDict [(''prompt'', PStr (build_prompt (concat \<circ> map (key_to_str \<circ> fst))
                   (projr (start_session (init_client ''gemini-2.0-flash'' 100 15 Map.empty) ''demo''))
                   ''hi'')),
                (''response'', PStr [])]) \<and>
   map_of (history (snd (turn (concat \<circ> map (key_to_str \<circ> fst))
             (projr (start_session (init_client ''gemini-2.0-flash'' 100 15 Map.empty) ''demo''))
             ''hi'' (Inr \<lparr>truthy = True, resp_text = Some []\<rparr>)))) (KInt 1) \<noteq>
   Some (PDict [(''prompt'', PStr (build_prompt (concat \<circ> map (key_to_str \<circ> fst))
                   (projr (start_session (init_client ''gemini-2.0-flash'' 100 15 Map.empty) ''demo''))
                   ''hi'')),
                (''response'', PStr ''No response received.'')])"
proof -
  let ?c = "projr (start_session (init_client ''gemini-2.0-flash'' 100 15 Map.empty) ''demo'')"
  have h: "map_of (history ?c) (KStr ''history_index'') = Some (PInt 0)"
    by (simp add: start_session_def load_history_def init_client_def Let_def)
  from update_history_recorded [OF h, of "build_prompt (concat \<circ> map (key_to_str \<circ> fst)) ?c ''hi''" "Some []"]
  have "map_of (history (snd (turn (concat \<circ> map (key_to_str \<circ> fst)) ?c ''hi''
      (Inr \<lparr>truthy = True, resp_text = Some []\<rparr>)))) (KInt 1) =
    Some (PDict [(''prompt'', PStr (build_prompt (concat \<circ> map (key_to_str \<circ> fst)) ?c ''hi'')), (''response'', PStr [])])"
    by (simp add: turn_history turn_record_def process_response_def)
  then show ?thesis by simp
qed

section \<open>Typing "exit"\<close>

text \<open>
  The loop compares the lowered \<^verbatim>\<open>prompt\<close> with "exit", and \<^verbatim>\<open>prompt\<close> is the whole
  request built around the text typed: it starts with "chat history: " and is never
  "exit". A pass therefore ends the session only through the status of
  \<^verbatim>\<open>update_history\<close> (or a \<^verbatim>\<open>SystemExit\<close> raised by the remote call).
\<close>

lemma lower_build_prompt: "lower (build_prompt repr c txt) \<noteq> ''exit''"
  by (simp add: build_prompt_def lower_def)

lemma turn_exit_only_by_status:
  "fst (turn repr c txt remote) = Some SystemExit \<Longrightarrow>
   remote = Inl SystemExit \<or>
   (\<exists>r. remote = Inr r \<and>
      fst (update_history c (build_prompt repr c txt) (process_response r)) \<in> {Inr ''exit'', Inl SystemExit})"
  by (auto simp: turn_def respond_def Let_def lower_build_prompt
      split: prod.splits sum.splits option.splits if_splits)

text \<open>
  Claim C1 says that a turn whose prompt text is "exit" in any letter case ends the
  session. On the code it does not: in a new session with the default limit of 100
  questions, typing "exit" is answered like any other prompt and the loop reads the next
  prompt, whatever the rendering of the context.
\<close>

theorem typing_exit_does_not_terminate:
  "isl (start_session (init_client ''gemini-2.0-flash'' 100 15 Map.empty) ''demo'') = False \<and>
   lower ''exit'' = ''exit'' \<and>
   (\<forall>repr. fst (turn repr (projr (start_session (init_client ''gemini-2.0-flash'' 100 15 Map.empty) ''demo''))
      ''exit'' (Inr \<lparr>truthy = True, resp_text = Some ''Goodbye''\<rparr>)) = None)"
proof -
  have "lower ''exit'' = ''exit''"
    by (simp add: lower_def lower_char_def)
  moreover have "isl (start_session (init_client ''gemini-2.0-flash'' 100 15 Map.empty) ''demo'') = False"
    by (simp add: start_session_def load_history_def init_client_def Let_def)
  moreover have "fst (turn repr (projr (start_session (init_client ''gemini-2.0-flash'' 100 15 Map.empty) ''demo''))
      ''exit'' (Inr \<lparr>truthy = True, resp_text = Some ''Goodbye''\<rparr>)) = None" for repr
    by (simp add: start_session_def load_history_def init_client_def Let_def turn_def respond_def
        process_response_def update_history_def save_history_def lower_build_prompt)
  ultimately show ?thesis by blast
qed

section \<open>The question limit\<close>

lemma well_formed_index:
  "well_formed h \<Longrightarrow> map_of h (KStr ''history_index'') = Some (PInt (int (length h) - 2))"
  by (erule well_formedE) simp

lemma well_formed_updated:
  assumes "well_formed (history c)"
  shows "well_formed (history (snd (update_history c prompt resp)))"
    and "length (history (snd (update_history c prompt resp))) = length (history c) + 1"
proof -
  from assms obtain v1 ts where
    h: "history c = (KStr ''title'', v1) # (KStr ''history_index'', PInt (int (length ts))) # ts"
    and keys: "map (\<lambda>(k, v). key_to_str k) ts = map str_of_int [1..int (length ts)]"
    by (rule well_formedE)
  note h' = update_history_well_formed(1) [OF h keys, of prompt resp]
  show "well_formed (history (snd (update_history c prompt resp)))"
    using well_formedI [OF numbered_keys_snoc [OF keys, of "turn_record prompt resp"], of v1]
    by (simp add: h' add.commute)
  show "length (history (snd (update_history c prompt resp))) = length (history c) + 1"
    by (simp add: h' h)
qed

lemma after_updates_well_formed:
  assumes "well_formed (history c)"
  shows "well_formed (history (after_updates c calls)) \<and>
         length (history (after_updates c calls)) = length (history c) + length calls \<and>
         history_index (after_updates c calls) = history_index c \<and>
         max 1 (questions (after_updates c calls)) = max 1 (questions c)"
  using assms
proof (induction calls arbitrary: c)
  case Nil
  then show ?case by simp
next
  case (Cons call calls)
  obtain prompt resp where call: "call = (prompt, resp)" by (cases call)
  let ?c = "snd (update_history c prompt resp)"
  from well_formed_updated [OF Cons.prems, of prompt resp]
  have wf: "well_formed (history ?c)" and len: "length (history ?c) = length (history c) + 1"
    by simp_all
  from Cons.IH [OF wf] show ?case
    by (simp add: call len update_history_frame update_history_questions)
qed

lemma update_history_status_well_formed:
  assumes "well_formed (history c)" and "history_index c = PInt s"
  shows "fst (update_history c prompt resp) =
         Inr (if int (length (history c)) - 1 = max 1 (questions c) + s
              then ''exit'' else ''continue'')"
  using update_history_status [OF well_formed_index [OF assms(1)] assms(2), of prompt resp]
    well_formed_updated(2) [OF assms(1), of prompt resp]
  by simp

lemma start_session_fresh:
  assumes "disk c (history_path title) = None \<or> disk c (history_path title) = Some EmptyFile"
  shows "\<exists>c1. start_session c title = Inr c1 \<and> well_formed (history c1) \<and>
           length (history c1) = 2 \<and> history_index c1 = PInt 0 \<and> questions c1 = questions c"
  using assms
  by (auto simp: start_session_def load_history_def well_formed_def Let_def)

lemma nth_call_status:
  assumes "well_formed (history c1)" and "length (history c1) = 2"
    and "history_index c1 = PInt 0"
  shows "fst (update_history (after_updates c1 calls) prompt resp) =
         Inr (if int (length calls) + 1 = max 1 (questions c1) then ''exit'' else ''continue'')"
proof -
  from after_updates_well_formed [OF assms(1), of calls] assms(2,3)
  have wf: "well_formed (history (after_updates c1 calls))"
    and len: "length (history (after_updates c1 calls)) = 2 + length calls"
    and idx: "history_index (after_updates c1 calls) = PInt 0"
    and q: "max 1 (questions (after_updates c1 calls)) = max 1 (questions c1)"
    by simp_all
  from update_history_status_well_formed [OF wf idx, of prompt resp] show ?thesis
    by (simp add: len q)
qed

lemma turn_remote_failure:
  "turn repr c txt (Inl e) = (Some e, c)"
  by (simp add: turn_def respond_def)

lemma turn_exit_status:
  assumes "fst (update_history c (build_prompt repr c txt) (Some a)) = Inr ''exit''"
    and "process_response r = Some a"
  shows "fst (turn repr c txt (Inr r)) = Some SystemExit"
proof -
  obtain res c2 where u: "update_history c (build_prompt repr c txt) (Some a) = (res, c2)"
    by (cases "update_history c (build_prompt repr c txt) (Some a)")
  with assms(1) have "res = Inr ''exit''" by simp
  with u assms(2) show ?thesis
    by (simp add: turn_def respond_def Let_def)
qed

text \<open>
  Claim C3, as amended. In a session opened on a title that has no record or an empty
  one (it starts at turn index 0 with no turn stored), with a question limit L of at
  least 1, each of the first L - 1 calls of \<^verbatim>\<open>update_history\<close> returns "continue" and
  call number L returns "exit". A configured limit of 0 or less is left as it is by
  opening the session and by a turn whose remote call fails; it is set to 1 by the first
  call of \<^verbatim>\<open>update_history\<close>, which returns "exit", so that the first turn whose
  request is answered with a text ends the session: exactly one turn is allowed.
\<close>

theorem turn_limit_boundary:
  assumes "disk c (history_path title) = None \<or> disk c (history_path title) = Some EmptyFile"
  shows "\<exists>c1. start_session c title = Inr c1 \<and>
           history_index c1 = PInt 0 \<and> questions c1 = questions c \<and>
           (\<forall>calls prompt resp.
              1 \<le> questions c \<longrightarrow>
              (int (length calls) + 1 < questions c \<longrightarrow>
                 fst (update_history (after_updates c1 calls) prompt resp) = Inr ''continue'') \<and>
              (int (length calls) + 1 = questions c \<longrightarrow>
                 fst (update_history (after_updates c1 calls) prompt resp) = Inr ''exit'')) \<and>
           (\<forall>prompt resp.
              questions c \<le> 0 \<longrightarrow>
              fst (update_history c1 prompt resp) = Inr ''exit'' \<and>
              questions (snd (update_history c1 prompt resp)) = 1) \<and>
           (\<forall>repr txt e. questions (snd (turn repr c1 txt (Inl e))) = questions c) \<and>
           (\<forall>repr txt r a.
              questions c \<le> 0 \<and> process_response r = Some a \<longrightarrow>
              fst (turn repr c1 txt (Inr r)) = Some SystemExit)"
proof -
  from start_session_fresh [OF assms] obtain c1 where
    c1: "start_session c title = Inr c1" and wf: "well_formed (history c1)"
    and len: "length (history c1) = 2" and idx: "history_index c1 = PInt 0"
    and q: "questions c1 = questions c"
    by blast
  note nth = nth_call_status [OF wf len idx]
  have 1: "fst (update_history (after_updates c1 calls) prompt resp) = Inr ''continue''"
    if "1 \<le> questions c" "int (length calls) + 1 < questions c" for calls prompt resp
    using that by (simp add: nth q)
  have 2: "fst (update_history (after_updates c1 calls) prompt resp) = Inr ''exit''"
    if "1 \<le> questions c" "int (length calls) + 1 = questions c" for calls prompt resp
    using that by (simp add: nth q)
  have 3: "fst (update_history c1 prompt resp) = Inr ''exit'' \<and>
      questions (snd (update_history c1 prompt resp)) = 1"
    if "questions c \<le> 0" for prompt resp
    using that nth [of "[]" prompt resp] by (simp add: q update_history_questions)
  have 4: "questions (snd (turn repr c1 line (Inl e))) = questions c" for repr line e
    by (simp add: turn_remote_failure q)
  have 5: "fst (turn repr c1 line (Inr r)) = Some SystemExit"
    if "questions c \<le> 0 \<and> process_response r = Some a" for repr line r a
    using that 3 [of "build_prompt repr c1 line" "Some a"]
    by (auto intro: turn_exit_status)
  from c1 idx q 1 2 3 4 5 show ?thesis by blast
qed

theorem turn_limit_boundary_witness:
  "(Map.empty (history_path ''demo'') = (None :: filedata option) \<or>
    Map.empty (history_path ''demo'') = Some EmptyFile) \<and>
   (1::int) \<le> 2 \<and> (0::int) \<le> 0 \<and>
   process_response \<lparr>truthy = True, resp_text = Some ''hello''\<rparr> = Some ''hello'' \<and>
   fst (update_history
          (after_updates (projr (start_session (init_client ''gemini-2.0-flash'' 2 1 Map.empty) ''demo'')) [])
          ''hi'' (Some ''hello'')) = Inr ''continue'' \<and>
   fst (update_history
          (after_updates (projr (start_session (init_client ''gemini-2.0-flash'' 2 1 Map.empty) ''demo''))
             [(''hi'', Some ''hello'')])
          ''bye'' (Some ''ok'')) = Inr ''exit'' \<and>
   questions (projr (start_session (init_client ''gemini-2.0-flash'' 0 1 Map.empty) ''demo'')) = 0 \<and>
   fst (update_history (projr (start_session (init_client ''gemini-2.0-flash'' 0 1 Map.empty) ''demo''))
          ''hi'' (Some ''hello'')) = Inr ''exit'' \<and>
   questions (snd (update_history (projr (start_session (init_client ''gemini-2.0-flash'' 0 1 Map.empty) ''demo''))
          ''hi'' (Some ''hello''))) = 1 \<and>
   fst (turn (concat \<circ> map (key_to_str \<circ> fst)) (projr (start_session (init_client ''gemini-2.0-flash'' 0 1 Map.empty) ''demo''))
          ''hi'' (Inr \<lparr>truthy = True, resp_text = Some ''hello''\<rparr>)) = Some SystemExit"
proof -
  have q2: "questions (init_client ''gemini-2.0-flash'' 2 1 Map.empty) = 2"
    and q0: "questions (init_client ''gemini-2.0-flash'' 0 1 Map.empty) = 0"
    by (simp_all add: init_client_def)
  have d2: "disk (init_client ''gemini-2.0-flash'' 2 1 Map.empty) (history_path ''demo'') = None"
    and d0: "disk (init_client ''gemini-2.0-flash'' 0 1 Map.empty) (history_path ''demo'') = None"
    by (simp_all add: init_client_def)
  have p: "process_response \<lparr>truthy = True, resp_text = Some ''hello''\<rparr> = Some ''hello''"
    by (simp add: process_response_def)
  from turn_limit_boundary [of "init_client ''gemini-2.0-flash'' 2 1 Map.empty" "''demo''"] d2
  obtain c1 where c1: "start_session (init_client ''gemini-2.0-flash'' 2 1 Map.empty) ''demo'' = Inr c1"
    and a: "\<And>calls prompt resp. int (length calls) + 1 < 2 \<Longrightarrow>
              fst (update_history (after_updates c1 calls) prompt resp) = Inr ''continue''"
    and b: "\<And>calls prompt resp. int (length calls) + 1 = 2 \<Longrightarrow>
              fst (update_history (after_updates c1 calls) prompt resp) = Inr ''exit''"
    unfolding q2 by auto
  from turn_limit_boundary [of "init_client ''gemini-2.0-flash'' 0 1 Map.empty" "''demo''"] d0
  obtain c0 where c0: "start_session (init_client ''gemini-2.0-flash'' 0 1 Map.empty) ''demo'' = Inr c0"
    and q: "questions c0 = 0"
    and z: "\<And>prompt resp. fst (update_history c0 prompt resp) = Inr ''exit'' \<and>
              questions (snd (update_history c0 prompt resp)) = 1"
    and t: "\<And>repr line r a. process_response r = Some a \<Longrightarrow>
              fst (turn repr c0 line (Inr r)) = Some SystemExit"
    unfolding q0 by auto
  show ?thesis
    using a [of "[]" "''hi''" "Some ''hello''"] b [of "[(''hi'', Some ''hello'')]" "''bye''" "Some ''ok''"]
      z [of "''hi''" "Some ''hello''"] q p
      t [OF p, of "(concat \<circ> map (key_to_str \<circ> fst))" "''hi''"]
    by (simp add: c1 c0)
qed

text \<open>
  Claim C3 as stated has a limit of 0 or less coerced to 1 before any turn is processed,
  and speaks of every session that starts at turn index 0. With a configured limit of 0
  the limit is still 0 once the session is open, and still 0 after a first turn whose
  remote call fails. And a session on an existing record that holds one turn and the
  counter 0 starts at turn index 0, yet with the limit 1 its first update returns
  "continue".
\<close>

theorem turn_limit_counterexample:
  "questions (projr (start_session (init_client ''gemini-2.0-flash'' 0 15 Map.empty) ''demo'')) = 0 \<and>
   turn (concat \<circ> map (key_to_str \<circ> fst)) (projr (start_session (init_client ''gemini-2.0-flash'' 0 15 Map.empty) ''demo''))
     ''hi'' (Inl (OtherError ''remote call failed'')) =
     (Some (OtherError ''remote call failed''),
      projr (start_session (init_client ''gemini-2.0-flash'' 0 15 Map.empty) ''demo'')) \<and>
   questions (snd (turn (concat \<circ> map (key_to_str \<circ> fst)) (projr (start_session (init_client ''gemini-2.0-flash'' 0 15 Map.empty) ''demo''))
     ''hi'' (Inl (OtherError ''remote call failed'')))) = 0 \<and>
   history_index (projr (start_session (init_client ''gemini-2.0-flash'' 1 15
       [history_path ''demo'' \<mapsto> JsonObject
          [(''title'', PStr ''demo''), (''history_index'', PInt 0),
           (''1'', PDict [(''prompt'', PStr ''hi''), (''response'', PStr ''hello'')])]]) ''demo'')) = PInt 0 \<and>
   fst (update_history (projr (start_session (init_client ''gemini-2.0-flash'' 1 15
       [history_path ''demo'' \<mapsto> JsonObject
          [(''title'', PStr ''demo''), (''history_index'', PInt 0),
           (''1'', PDict [(''prompt'', PStr ''hi''), (''response'', PStr ''hello'')])]]) ''demo''))
     ''bye'' (Some ''ok'')) = Inr ''continue''"
proof -
  have "questions (projr (start_session (init_client ''gemini-2.0-flash'' 0 15 Map.empty) ''demo'')) = 0"
    by (simp add: start_session_def load_history_def init_client_def Let_def)
  moreover have "history_index (projr (start_session (init_client ''gemini-2.0-flash'' 1 15
       [history_path ''demo'' \<mapsto> JsonObject
          [(''title'', PStr ''demo''), (''history_index'', PInt 0),
           (''1'', PDict [(''prompt'', PStr ''hi''), (''response'', PStr ''hello'')])]]) ''demo'')) = PInt 0"
    by (simp add: start_session_def load_history_def init_client_def Let_def json_load_def)
  moreover have "fst (update_history (projr (start_session (init_client ''gemini-2.0-flash'' 1 15
       [history_path ''demo'' \<mapsto> JsonObject
          [(''title'', PStr ''demo''), (''history_index'', PInt 0),
           (''1'', PDict [(''prompt'', PStr ''hi''), (''response'', PStr ''hello'')])]]) ''demo''))
     ''bye'' (Some ''ok'')) = Inr ''continue''"
    by (simp add: start_session_def load_history_def init_client_def Let_def json_load_def
        update_history_def save_history_def)
  ultimately show ?thesis
    by (simp add: turn_remote_failure)
qed

section \<open>The counter and the turn keys\<close>

text \<open>
  Claim C7. In every state whose history the client has made, the counter
  \<^verbatim>\<open>history_index\<close> equals the number of turn entries, and the turn keys read, in
  order, as the numbers from 1 up to the counter. Every call of \<^verbatim>\<open>update_history\<close>
  raises the counter by exactly 1 and appends the new turn under the new counter value,
  so the counter never goes down.
\<close>

theorem history_invariant:
  assumes "system_state c"
  shows "map_of (history c) (KStr ''history_index'') =
           Some (PInt (int (length (turn_entries (history c))))) \<and>
         map (\<lambda>(k, v). key_to_str k) (turn_entries (history c)) =
           map str_of_int [1..int (length (turn_entries (history c)))] \<and>
         (\<forall>prompt resp.
            map_of (history (snd (update_history c prompt resp))) (KStr ''history_index'') =
              Some (PInt (int (length (turn_entries (history c))) + 1)) \<and>
            turn_entries (history (snd (update_history c prompt resp))) =
              turn_entries (history c) @
              [(KInt (int (length (turn_entries (history c))) + 1), turn_record prompt resp)])"
proof -
  from system_state_consistent [OF assms] have wf: "well_formed (history c)"
    by (simp add: consistent_def)
  then obtain v1 ts where
    h: "history c = (KStr ''title'', v1) # (KStr ''history_index'', PInt (int (length ts))) # ts"
    and keys: "map (\<lambda>(k, v). key_to_str k) ts = map str_of_int [1..int (length ts)]"
    by (rule well_formedE)
  have te: "turn_entries (history c) = ts"
    using turn_entries_well_formed [OF wf] by (simp add: h)
  have "map_of (history (snd (update_history c prompt resp))) (KStr ''history_index'') =
          Some (PInt (int (length ts) + 1)) \<and>
        turn_entries (history (snd (update_history c prompt resp))) =
          ts @ [(KInt (int (length ts) + 1), turn_record prompt resp)]" for prompt resp
    using update_history_well_formed(1) [OF h keys, of prompt resp]
      turn_entries_well_formed [OF well_formed_updated(1) [OF wf, of prompt resp]]
    by simp
  then show ?thesis
    by (simp add: te keys) (simp add: h)
qed

theorem history_invariant_witness:
  "system_state (snd (update_history
       (projr (start_session (init_client ''gemini-2.0-flash'' 100 15 Map.empty) ''demo''))
       ''hi'' (Some ''hello''))) \<and>
   map_of (history (snd (update_history
       (projr (start_session (init_client ''gemini-2.0-flash'' 100 15 Map.empty) ''demo''))
       ''hi'' (Some ''hello'')))) (KStr ''history_index'') = Some (PInt 1) \<and>
   map (\<lambda>(k, v). key_to_str k) (turn_entries (history (snd (update_history
       (projr (start_session (init_client ''gemini-2.0-flash'' 100 15 Map.empty) ''demo''))
       ''hi'' (Some ''hello''))))) = map str_of_int [1..1]"
proof -
  let ?c0 = "init_client ''gemini-2.0-flash'' 100 15 Map.empty"
  let ?c1 = "projr (start_session ?c0 ''demo'')"
  let ?c2 = "snd (update_history ?c1 ''hi'' (Some ''hello''))"
  have l: "start_session ?c0 ''demo'' = Inr ?c1"
    by (simp add: start_session_def load_history_def init_client_def Let_def)
  have "disk ?c0 (history_path ''demo'') = None \<or> disk ?c0 (history_path ''demo'') = Some EmptyFile"
    by (simp add: init_client_def)
  from system_state.fresh [OF this l] have "system_state ?c1" .
  from system_state.updated [OF this, of "''hi''" "Some ''hello''" "fst (update_history ?c1 ''hi'' (Some ''hello''))" ?c2]
  have s: "system_state ?c2" by simp
  have n: "length (turn_entries (history ?c2)) = 1"
    by (simp add: start_session_def load_history_def init_client_def Let_def update_history_def
        save_history_def turn_entries_def)
  from history_invariant [OF s] s show ?thesis
    by (simp add: n)
qed

section \<open>Past the limit\<close>

text \<open>
  The limit test is an equality. Once the number of stored turns is beyond the limit in
  force (the configured limit, or 1 when that is below 1) plus the index at which the
  session started, no later call can make the two sides equal.
\<close>

lemma after_updates_overshoot:
  assumes "map_of (history c) (KStr ''history_index'') = Some (PInt n)"
    and "history_index c = PInt s"
    and "max 1 (questions c) + s < int (length (history c)) - 2"
  shows "(\<exists>n'. map_of (history (after_updates c calls)) (KStr ''history_index'') = Some (PInt n')) \<and>
         history_index (after_updates c calls) = PInt s \<and>
         max 1 (questions (after_updates c calls)) + s < int (length (history (after_updates c calls))) - 2"
  using assms
proof (induction calls arbitrary: c n)
  case Nil
  then show ?case by simp
next
  case (Cons call calls)
  obtain prompt resp where call: "call = (prompt, resp)" by (cases call)
  let ?c = "snd (update_history c prompt resp)"
  have 1: "map_of (history ?c) (KStr ''history_index'') = Some (PInt (n + 1))"
    by (rule update_history_index [OF Cons.prems(1)])
  have 2: "history_index ?c = PInt s"
    by (simp add: update_history_frame Cons.prems(2))
  have 3: "max 1 (questions ?c) + s < int (length (history ?c)) - 2"
    using Cons.prems(3) update_history_length [of c prompt resp]
    by (simp add: update_history_questions)
  from Cons.IH [OF 1 2 3] show ?case by (simp add: call)
qed

text \<open>
  Claim C10, as amended. For every state with an integer counter and starting index in
  which the stored turn count already exceeds \<open>max 1 questions\<close> plus the starting
  index, \<^verbatim>\<open>update_history\<close> returns "continue" on the next call and on every call
  after it.
\<close>

theorem overshoot_never_signals:
  assumes "map_of (history c) (KStr ''history_index'') = Some (PInt n)"
    and "history_index c = PInt s"
    and "max 1 (questions c) + s < int (length (history c)) - 2"
  shows "fst (update_history (after_updates c calls) prompt resp) = Inr ''continue''"
proof -
  let ?c = "after_updates c calls"
  from after_updates_overshoot [OF assms, of calls] obtain n' where
    1: "map_of (history ?c) (KStr ''history_index'') = Some (PInt n')"
    and 2: "history_index ?c = PInt s"
    and 3: "max 1 (questions ?c) + s < int (length (history ?c)) - 2"
    by blast
  from 3 update_history_length [of ?c prompt resp]
  have "int (length (history (snd (update_history ?c prompt resp)))) - 2 \<noteq> max 1 (questions ?c) + s"
    by simp
  with update_history_status [OF 1 2, of prompt resp] show ?thesis by simp
qed

theorem overshoot_never_signals_witness:
  "map_of (history (init_client ''gemini-2.0-flash'' 1 15 Map.empty
      \<lparr>history := [(KStr ''title'', PStr ''demo''), (KStr ''history_index'', PInt 0),
                   (KStr ''1'', PDict []), (KStr ''2'', PDict [])]\<rparr>)) (KStr ''history_index'') = Some (PInt 0) \<and>
   history_index (init_client ''gemini-2.0-flash'' 1 15 Map.empty
      \<lparr>history := [(KStr ''title'', PStr ''demo''), (KStr ''history_index'', PInt 0),
                   (KStr ''1'', PDict []), (KStr ''2'', PDict [])]\<rparr>) = PInt 0 \<and>
   max 1 (questions (init_client ''gemini-2.0-flash'' 1 15 Map.empty
      \<lparr>history := [(KStr ''title'', PStr ''demo''), (KStr ''history_index'', PInt 0),
                   (KStr ''1'', PDict []), (KStr ''2'', PDict [])]\<rparr>)) + 0
     < int (length (history (init_client ''gemini-2.0-flash'' 1 15 Map.empty
      \<lparr>history := [(KStr ''title'', PStr ''demo''), (KStr ''history_index'', PInt 0),
                   (KStr ''1'', PDict []), (KStr ''2'', PDict [])]\<rparr>))) - 2 \<and>
   fst (update_history (after_updates (init_client ''gemini-2.0-flash'' 1 15 Map.empty
      \<lparr>history := [(KStr ''title'', PStr ''demo''), (KStr ''history_index'', PInt 0),
                   (KStr ''1'', PDict []), (KStr ''2'', PDict [])]\<rparr>) [(''a'', Some ''b'')])
      ''hi'' (Some ''hello'')) = Inr ''continue''"
proof -
  let ?c = "init_client ''gemini-2.0-flash'' 1 15 Map.empty
      \<lparr>history := [(KStr ''title'', PStr ''demo''), (KStr ''history_index'', PInt 0),
                   (KStr ''1'', PDict []), (KStr ''2'', PDict [])]\<rparr>"
  have 1: "map_of (history ?c) (KStr ''history_index'') = Some (PInt 0)"
    and 2: "history_index ?c = PInt 0"
    and 3: "max 1 (questions ?c) + 0 < int (length (history ?c)) - 2"
    by (simp_all add: init_client_def)
  from overshoot_never_signals [OF 1 2 3, of "[(''a'', Some ''b'')]" "''hi''" "Some ''hello''"] 1 2 3
  show ?thesis by blast
qed

text \<open>
  Claim C10 as stated takes the configured limit. With \<^verbatim>\<open>questions = -1\<close> in a new
  session, the turn count 0 exceeds \<open>-1 + 0\<close>, and the first call still returns
  "exit", because the limit is first raised to 1.
\<close>

theorem overshoot_counterexample:
  "history_index (projr (start_session (init_client ''gemini-2.0-flash'' (- 1) 15 Map.empty) ''demo'')) = PInt 0 \<and>
   questions (projr (start_session (init_client ''gemini-2.0-flash'' (- 1) 15 Map.empty) ''demo'')) + 0
     < int (length (history (projr (start_session (init_client ''gemini-2.0-flash'' (- 1) 15 Map.empty) ''demo'')))) - 2 \<and>
   fst (update_history (projr (start_session (init_client ''gemini-2.0-flash'' (- 1) 15 Map.empty) ''demo''))
          ''hi'' (Some ''hello'')) = Inr ''exit''"
  by (simp add: start_session_def load_history_def init_client_def Let_def update_history_def
      save_history_def)

section \<open>The context slice\<close>

lemma filter_drop_bookkeeping:
  assumes "\<not> P b1" and "\<not> P b2" and "filter P ts = ts"
  shows "filter P (drop k (b1 # b2 # ts)) = drop (k - 2) ts"
proof -
  from assms(3) have all: "\<forall>x \<in> set ts. P x"
    by (metis filter_id_conv)
  have keep: "filter P (drop j ts) = drop j ts" for j
    using all by (auto intro!: filter_True dest: in_set_dropD)
  consider "k = 0" | "k = 1" | "2 \<le> k" by linarith
  then show ?thesis
  proof cases
    case 1
    with assms show ?thesis by simp
  next
    case 2
    with assms show ?thesis by simp
  next
    case 3
    then obtain j where k: "k = Suc (Suc j)" by (metis Suc_leD Suc_le_D numeral_2_eq_2 Suc_le_mono)
    show ?thesis by (simp add: k keep)
  qed
qed

text \<open>
  Claim C2, as amended. In every state whose history the client has made, with M turns
  and a context window N of at least 1, the context list is the title entry of the
  history, then the counter entry holding the index at which the session started, then
  the M turns in insertion order. The context slice put into the next request (after the
  words "chat history: ") is the last \<open>min (M + 2) N\<close> entries of that list. The turns in
  the slice are exactly the \<open>min M N\<close> most recent turns, in insertion order; when N
  exceeds M the slice holds, before them, that counter entry and (for N > M + 1) the
  title entry.
\<close>

theorem context_slice_recent_turns:
  assumes "system_state c" and "1 \<le> context_window c"
  shows "\<exists>v s.
           map_of (history c) (KStr ''title'') = Some v \<and>
           history_index c = PInt s \<and> 0 \<le> s \<and> s \<le> int (length (turn_entries (history c))) \<and>
           chat_context c =
             (KStr ''title'', v) # (KStr ''history_index'', PInt s) # turn_entries (history c) \<and>
           context_slice c =
             drop (length (turn_entries (history c)) + 2 - nat (context_window c))
               ((KStr ''title'', v) # (KStr ''history_index'', PInt s) # turn_entries (history c)) \<and>
           length (context_slice c) =
             min (length (turn_entries (history c)) + 2) (nat (context_window c)) \<and>
           turn_entries (context_slice c) =
             drop (length (turn_entries (history c)) - nat (context_window c)) (turn_entries (history c)) \<and>
           length (turn_entries (context_slice c)) =
             min (length (turn_entries (history c))) (nat (context_window c)) \<and>
           (\<forall>repr txt.
              build_prompt repr c txt = ''chat history: '' @ repr (context_slice c) @ instruction @ txt)"
proof -
  let ?P = "\<lambda>(k, v). k \<noteq> KStr ''title'' \<and> k \<noteq> KStr ''history_index''"
  from system_state_consistent [OF assms(1)] obtain v ts s where
    h: "history c = (KStr ''title'', v) # (KStr ''history_index'', PInt (int (length ts))) # ts"
    and keys: "map (\<lambda>(k, v). key_to_str k) ts = map str_of_int [1..int (length ts)]"
    and s: "history_index c = PInt s" "0 \<le> s" "s \<le> int (length ts)"
    and ctx: "chat_context c = (KStr ''title'', v) # (KStr ''history_index'', PInt s) # ts"
    by (rule consistentE)
  have idem: "filter ?P ts = ts"
    by (rule numbered_keys_not_bookkeeping [OF keys])
  have te: "turn_entries (history c) = ts"
    by (simp add: turn_entries_def h idem)
  have title: "map_of (history c) (KStr ''title'') = Some v"
    by (simp add: h)
  have slice: "context_slice c =
      drop (length ts + 2 - nat (context_window c))
        ((KStr ''title'', v) # (KStr ''history_index'', PInt s) # ts)"
  proof -
    have "nat (max (int (length (chat_context c)) + - context_window c) 0) =
          length ts + 2 - nat (context_window c)"
      using assms(2) by (simp add: ctx)
    with assms(2) show ?thesis
      by (simp add: context_slice_def py_slice_from_def ctx)
  qed
  have "\<not> ?P (KStr ''title'', v)" "\<not> ?P (KStr ''history_index'', PInt s)"
    by simp_all
  from filter_drop_bookkeeping [OF this idem, of "length ts + 2 - nat (context_window c)"]
  have turns: "turn_entries (context_slice c) = drop (length ts - nat (context_window c)) ts"
    unfolding slice by (simp add: turn_entries_def [of "drop _ _"])
  from slice have len: "length (context_slice c) = min (length ts + 2) (nat (context_window c))"
    by simp
  from turns have lent: "length (turn_entries (context_slice c)) = min (length ts) (nat (context_window c))"
    by simp
  have req: "\<forall>repr txt.
      build_prompt repr c txt = ''chat history: '' @ repr (context_slice c) @ instruction @ txt"
    by (simp add: build_prompt_def)
  from title s ctx slice len turns lent req show ?thesis
    unfolding te by blast
qed

theorem context_slice_recent_turns_witness:
  "system_state (snd (update_history
       (projr (start_session (init_client ''gemini-2.0-flash'' 2 1 Map.empty) ''demo''))
       ''hi'' (Some ''hello''))) \<and>
   1 \<le> context_window (snd (update_history
       (projr (start_session (init_client ''gemini-2.0-flash'' 2 1 Map.empty) ''demo''))
       ''hi'' (Some ''hello''))) \<and>
   chat_context (snd (update_history
       (projr (start_session (init_client ''gemini-2.0-flash'' 2 1 Map.empty) ''demo''))
       ''hi'' (Some ''hello''))) =
     [(KStr ''title'', PStr ''demo''), (KStr ''history_index'', PInt 0),
      (KInt 1, turn_record ''hi'' (Some ''hello''))] \<and>
   context_slice (snd (update_history
       (projr (start_session (init_client ''gemini-2.0-flash'' 2 1 Map.empty) ''demo''))
       ''hi'' (Some ''hello''))) = [(KInt 1, turn_record ''hi'' (Some ''hello''))] \<and>
   turn_entries (context_slice (snd (update_history
       (projr (start_session (init_client ''gemini-2.0-flash'' 2 1 Map.empty) ''demo''))
       ''hi'' (Some ''hello'')))) = [(KInt 1, turn_record ''hi'' (Some ''hello''))]"
proof -
  let ?c0 = "init_client ''gemini-2.0-flash'' 2 1 Map.empty"
  let ?c1 = "projr (start_session ?c0 ''demo'')"
  let ?c2 = "snd (update_history ?c1 ''hi'' (Some ''hello''))"
  let ?t = "(KInt 1, turn_record ''hi'' (Some ''hello''))"
  have l: "start_session ?c0 ''demo'' = Inr ?c1"
    by (simp add: start_session_def load_history_def init_client_def Let_def)
  have "disk ?c0 (history_path ''demo'') = None \<or> disk ?c0 (history_path ''demo'') = Some EmptyFile"
    by (simp add: init_client_def)
  from system_state.fresh [OF this l] have "system_state ?c1" .
  from system_state.updated [OF this, of "''hi''" "Some ''hello''" "fst (update_history ?c1 ''hi'' (Some ''hello''))" ?c2]
  have st: "system_state ?c2" by simp
  have w: "1 \<le> context_window ?c2"
    by (simp add: update_history_frame start_session_def load_history_def init_client_def Let_def)
  have cw: "nat (context_window ?c2) = 1"
    by (simp add: update_history_frame start_session_def load_history_def init_client_def Let_def)
  have h: "turn_entries (history ?c2) = [?t]"
    by (simp add: start_session_def load_history_def init_client_def Let_def update_history_def
        save_history_def turn_entries_def)
  have t: "map_of (history ?c2) (KStr ''title'') = Some (PStr ''demo'')"
    by (simp add: start_session_def load_history_def init_client_def Let_def update_history_def
        save_history_def)
  have i: "history_index ?c2 = PInt 0"
    by (simp add: update_history_frame start_session_def load_history_def init_client_def Let_def)
  from context_slice_recent_turns [OF st w] obtain v s where
    "map_of (history ?c2) (KStr ''title'') = Some v" "history_index ?c2 = PInt s"
    and ctx: "chat_context ?c2 =
      (KStr ''title'', v) # (KStr ''history_index'', PInt s) # turn_entries (history ?c2)"
    and sl: "context_slice ?c2 =
      drop (length (turn_entries (history ?c2)) + 2 - nat (context_window ?c2))
        ((KStr ''title'', v) # (KStr ''history_index'', PInt s) # turn_entries (history ?c2))"
    by blast
  with t i have v: "v = PStr ''demo''" and s: "s = 0" by simp_all
  from ctx have 1: "chat_context ?c2 =
      [(KStr ''title'', PStr ''demo''), (KStr ''history_index'', PInt 0), ?t]"
    unfolding h v s by simp
  from sl have 2: "context_slice ?c2 = [?t]"
    unfolding h cw by simp
  have 3: "turn_entries (context_slice ?c2) = [?t]"
    unfolding 2 by (simp add: turn_entries_def)
  from st w 1 2 3 show ?thesis by blast
qed

text \<open>
  Claim C2 as stated gives the slice the length \<open>min M N\<close> and nothing but turns. In a
  new session (M = 0) with the default window N = 15 the slice has two entries, the
  title and the counter.
\<close>

theorem context_slice_counterexample:
  "length (turn_entries (history (projr (start_session (init_client ''gemini-2.0-flash'' 100 15 Map.empty) ''demo'')))) = 0 \<and>
   context_window (projr (start_session (init_client ''gemini-2.0-flash'' 100 15 Map.empty) ''demo'')) = 15 \<and>
   context_slice (projr (start_session (init_client ''gemini-2.0-flash'' 100 15 Map.empty) ''demo'')) =
     [(KStr ''title'', PStr ''demo''), (KStr ''history_index'', PInt 0)] \<and>
   length (context_slice (projr (start_session (init_client ''gemini-2.0-flash'' 100 15 Map.empty) ''demo''))) \<noteq>
     min (length (turn_entries (history (projr (start_session (init_client ''gemini-2.0-flash'' 100 15 Map.empty) ''demo'')))))
         (nat (context_window (projr (start_session (init_client ''gemini-2.0-flash'' 100 15 Map.empty) ''demo''))))"
  by (simp add: start_session_def load_history_def init_client_def Let_def turn_entries_def
      context_slice_def py_slice_from_def)

section \<open>Saving and loading again\<close>

lemma map_of_stringify:
  assumes "\<And>i. str_of_int i \<noteq> s"
  shows "map_of (stringify h) (KStr s) = map_of h (KStr s)"
proof (induction h)
  case Nil
  then show ?case by (simp add: stringify_def)
next
  case (Cons e h)
  obtain k v where e: "e = (k, v)" by (cases e)
  from Cons have IH: "map_of (stringify h) (KStr s) = map_of h (KStr s)" .
  show ?case
  proof (cases k)
    case (KInt i)
    with assms [of i] IH show ?thesis by (simp add: e stringify_def)
  next
    case (KStr t)
    with IH show ?thesis by (simp add: e stringify_def)
  qed
qed

lemma turn_entries_stringify: "turn_entries (stringify h) = stringify (turn_entries h)"
proof (induction h)
  case Nil
  then show ?case by (simp add: stringify_def turn_entries_def)
next
  case (Cons e h)
  obtain k v where e: "e = (k, v)" by (cases e)
  from Cons have IH: "turn_entries (stringify h) = stringify (turn_entries h)" .
  have split: "stringify (e # h) = (KStr (key_to_str k), v) # stringify h"
    by (simp add: e stringify_def)
  have cons: "stringify (e # turn_entries h) = (KStr (key_to_str k), v) # stringify (turn_entries h)"
    by (simp add: e stringify_def)
  show ?case
  proof (cases k)
    case (KInt i)
    with IH str_of_int_not_title [of i] str_of_int_not_history_index [of i] show ?thesis
      unfolding split by (simp add: turn_entries_def e stringify_def)
  next
    case (KStr t)
    with IH show ?thesis
      unfolding split by (auto simp: turn_entries_def e stringify_def)
  qed
qed

text \<open>
  Claim C4, as amended. Saving a history whose keys have pairwise different member names
  (as in every history the client makes) and loading it under the same title gives back
  the same entries in the same order, each key replaced by its member name: the title
  and the counter are the same, and the turns have the same prompts and responses in
  insertion order, under keys that are now the decimal strings of the keys saved.
\<close>

theorem save_load_roundtrip:
  assumes "history_file c = history_path title"
    and "distinct (map (\<lambda>(k, v). key_to_str k) (history c))"
  shows "\<exists>c'. start_session (d\<lparr>disk := disk (save_history c)\<rparr>) title = Inr c' \<and>
           history c' = map (\<lambda>(k, v). (KStr (key_to_str k), v)) (history c) \<and>
           map_of (history c') (KStr ''title'') = map_of (history c) (KStr ''title'') \<and>
           map_of (history c') (KStr ''history_index'') = map_of (history c) (KStr ''history_index'') \<and>
           history_index c' =
             (case map_of (history c) (KStr ''history_index'') of None \<Rightarrow> PInt 0 | Some v \<Rightarrow> v) \<and>
           map (\<lambda>(k, v). key_to_str k) (turn_entries (history c')) =
             map (\<lambda>(k, v). key_to_str k) (turn_entries (history c)) \<and>
           map snd (turn_entries (history c')) = map snd (turn_entries (history c))"
proof -
  let ?c = "d\<lparr>disk := disk (save_history c), chat_title := title, history_file := history_path title\<rparr>"
  have load: "load_history ?c = Inr (?c\<lparr>history := stringify (history c), chat_context := stringify (history c)\<rparr>)"
    by (simp add: load_history_def save_history_def assms(1) json_roundtrip [OF assms(2)] Let_def)
  let ?h = "stringify (history c)"
  let ?c' = "?c\<lparr>history := ?h, chat_context := ?h,
      history_index := (case map_of ?h (KStr ''history_index'') of None \<Rightarrow> PInt 0 | Some v \<Rightarrow> v)\<rparr>"
  have start: "start_session (d\<lparr>disk := disk (save_history c)\<rparr>) title = Inr ?c'"
    using load by (simp add: start_session_def)
  have t: "map_of ?h (KStr ''title'') = map_of (history c) (KStr ''title'')"
    by (rule map_of_stringify) (rule str_of_int_not_title)
  have i: "map_of ?h (KStr ''history_index'') = map_of (history c) (KStr ''history_index'')"
    by (rule map_of_stringify) (rule str_of_int_not_history_index)
  have "history ?c' = map (\<lambda>(k, v). (KStr (key_to_str k), v)) (history c)"
    by (simp add: stringify_def)
  moreover have "map (\<lambda>(k, v). key_to_str k) (turn_entries (history ?c')) =
      map (\<lambda>(k, v). key_to_str k) (turn_entries (history c))"
    by (simp add: turn_entries_stringify stringify_keys)
  moreover have "map snd (turn_entries (history ?c')) = map snd (turn_entries (history c))"
    by (simp add: turn_entries_stringify stringify_values)
  moreover have "history_index ?c' =
      (case map_of (history c) (KStr ''history_index'') of None \<Rightarrow> PInt 0 | Some v \<Rightarrow> v)"
    by (simp add: i)
  moreover have "map_of (history ?c') (KStr ''title'') = map_of (history c) (KStr ''title'')"
    by (simp add: t)
  moreover have "map_of (history ?c') (KStr ''history_index'') = map_of (history c) (KStr ''history_index'')"
    by (simp add: i)
  ultimately show ?thesis using start by blast
qed

lemma str_of_int_1: "str_of_int 1 = ''1''"
  by code_simp

theorem save_load_roundtrip_witness:
  "history_file (snd (update_history
       (projr (start_session (init_client ''gemini-2.0-flash'' 100 15 Map.empty) ''demo''))
       ''hi'' (Some ''hello''))) = history_path ''demo'' \<and>
   distinct (map (\<lambda>(k, v). key_to_str k) (history (snd (update_history
       (projr (start_session (init_client ''gemini-2.0-flash'' 100 15 Map.empty) ''demo''))
       ''hi'' (Some ''hello''))))) \<and>
   history (projr (start_session (init_client ''gemini-2.0-flash'' 100 15 Map.empty
       \<lparr>disk := disk (save_history (snd (update_history
          (projr (start_session (init_client ''gemini-2.0-flash'' 100 15 Map.empty) ''demo''))
          ''hi'' (Some ''hello''))))\<rparr>) ''demo'')) =
     [(KStr ''title'', PStr ''demo''), (KStr ''history_index'', PInt 1),
      (KStr ''1'', turn_record ''hi'' (Some ''hello''))]"
proof -
  let ?c = "snd (update_history
       (projr (start_session (init_client ''gemini-2.0-flash'' 100 15 Map.empty) ''demo''))
       ''hi'' (Some ''hello''))"
  let ?d = "init_client ''gemini-2.0-flash'' 100 15 Map.empty"
  have h: "history ?c = [(KStr ''title'', PStr ''demo''), (KStr ''history_index'', PInt 1),
      (KInt 1, turn_record ''hi'' (Some ''hello''))]"
    by (simp add: start_session_def load_history_def init_client_def Let_def update_history_def
        save_history_def)
  have f: "history_file ?c = history_path ''demo''"
    by (simp add: start_session_def load_history_def init_client_def Let_def update_history_def
        save_history_def)
  have dist: "distinct (map (\<lambda>(k, v). key_to_str k) (history ?c))"
    by (simp add: h str_of_int_1)
  from save_load_roundtrip [OF f dist, of ?d] obtain c' where
    "start_session (?d\<lparr>disk := disk (save_history ?c)\<rparr>) ''demo'' = Inr c'"
    "history c' = map (\<lambda>(k, v). (KStr (key_to_str k), v)) (history ?c)"
    by blast
  then have "history (projr (start_session (?d\<lparr>disk := disk (save_history ?c)\<rparr>) ''demo'')) =
     [(KStr ''title'', PStr ''demo''), (KStr ''history_index'', PInt 1),
      (KStr ''1'', turn_record ''hi'' (Some ''hello''))]"
    by (simp add: h str_of_int_1)
  with f dist show ?thesis by blast
qed

text \<open>
  Claim C4 as stated has the turns mapping come back identical. A turn added in this
  process is stored under the integer 1; after saving and loading, the integer 1 is not
  a key of the history, the turn is under the string "1", and the two histories differ.
\<close>

theorem save_load_roundtrip_counterexample:
  "map_of (history (snd (update_history
       (projr (start_session (init_client ''gemini-2.0-flash'' 100 15 Map.empty) ''demo''))
       ''hi'' (Some ''hello'')))) (KInt 1) = Some (turn_record ''hi'' (Some ''hello'')) \<and>
   map_of (history (projr (start_session (init_client ''gemini-2.0-flash'' 100 15 Map.empty
       \<lparr>disk := disk (save_history (snd (update_history
          (projr (start_session (init_client ''gemini-2.0-flash'' 100 15 Map.empty) ''demo''))
          ''hi'' (Some ''hello''))))\<rparr>) ''demo''))) (KInt 1) = None \<and>
   history (projr (start_session (init_client ''gemini-2.0-flash'' 100 15 Map.empty
       \<lparr>disk := disk (save_history (snd (update_history
          (projr (start_session (init_client ''gemini-2.0-flash'' 100 15 Map.empty) ''demo''))
          ''hi'' (Some ''hello''))))\<rparr>) ''demo'')) \<noteq>
   history (snd (update_history
       (projr (start_session (init_client ''gemini-2.0-flash'' 100 15 Map.empty) ''demo''))
       ''hi'' (Some ''hello'')))"
  by (simp add: start_session_def load_history_def init_client_def Let_def update_history_def
      save_history_def json_dump_def json_load_def str_of_int_1)

section \<open>The configuration fields\<close>









section \<open>Whole runs\<close>

text \<open>
  The loop of \<^verbatim>\<open>start_chat\<close> ends by an exception only, so every run of the program
  logs the start message and then takes exactly one of the two handlers of
  \<^verbatim>\<open>main\<close>: a failure of the remote call leads to \<^verbatim>\<open>log.critical\<close>, the limit
  being reached leads to the message of a successful end.
\<close>

lemma run_logs:
  "run repr c title script =
     [Info ''Starting Gemini Client...'', Info ''Chat ended successfully.''] \<or>
   run repr c title script = [Info ''Starting Gemini Client...'', Critical]"
  by (simp add: run_def main_def split: exn.splits)

lemma run_remote_failure:
  assumes "start_session c title = Inr c1" and "e \<noteq> SystemExit"
  shows "run repr c title ((line, Inl e) # rest) = [Info ''Starting Gemini Client...'', Critical]"
  using assms
  by (simp add: run_def main_def start_chat_def turn_def respond_def Let_def split: exn.splits)

lemma run_limit_reached:
  assumes "start_session c title = Inr c1"
    and "fst (update_history c1 (build_prompt repr c1 line) (Some answer)) = Inr ''exit''"
  shows "run repr c title ((line, Inr \<lparr>truthy = True, resp_text = Some answer\<rparr>) # rest) =
         [Info ''Starting Gemini Client...'', Info ''Chat ended successfully.'']"
proof -
  obtain r c2 where u: "update_history c1 (build_prompt repr c1 line) (Some answer) = (r, c2)"
    by (cases "update_history c1 (build_prompt repr c1 line) (Some answer)")
  with assms(2) have "r = Inr ''exit''" by simp
  with u assms(1) show ?thesis
    by (simp add: run_def main_def start_chat_def turn_def respond_def process_response_def Let_def)
qed

end
